theory Spec2Isabelle
  imports Complex_Main
begin

section \<open>Option pricing lab: Black-Scholes kernel, implied-volatility solver, chain processor\<close>

text \<open>
  The development embeds three Python modules:
  \<^item> \<^verbatim>\<open>utils/pricers/black_scholes.py\<close> (the pricing kernel and the Greeks),
  \<^item> \<^verbatim>\<open>utils/pricers/implied_volatility.py\<close> (Newton, bisection and the unified solver,
    with their console output) and \<^verbatim>\<open>pricers/implied_volatility.py\<close> (the older solver
    without console output),
  \<^item> \<^verbatim>\<open>utils/data_processors/option_chain_processor.py\<close> (the batch processor).

  Python floats are modelled as the real numbers: arithmetic is exact, there is no rounding,
  overflow or underflow. The two infinities and the not-a-number value appear only where the
  source creates them itself (\<^verbatim>\<open>float("inf")\<close> in \<^verbatim>\<open>_d1_d2\<close>, and the division
  \<^verbatim>\<open>0.0 / 0.0\<close> on numpy scalars that follows from it in \<^verbatim>\<open>bsm_gamma\<close>).
\<close>

subsection \<open>Python values\<close>

text \<open>
  The values \<^verbatim>\<open>_d1_d2\<close> returns: a finite number, or the \<^verbatim>\<open>float("inf")\<close> of its guard;
  the callers negate them (\<^verbatim>\<open>-d1\<close>, \<^verbatim>\<open>-d2\<close>).
\<close>

datatype dval = Fin real | PosInf | NegInf

fun d_neg :: "dval \<Rightarrow> dval" where
  "d_neg (Fin x) = Fin (- x)"
| "d_neg PosInf = NegInf"
| "d_neg NegInf = PosInf"

text \<open>
  The result of a division of numpy scalars, which does not raise on a zero divisor but
  yields an infinity or NaN (with a warning).
\<close>

datatype pyfloat = Num real | PInf | NInf | NaN

definition np_div :: "real \<Rightarrow> real \<Rightarrow> pyfloat" where
  "np_div a b =
     (if b \<noteq> 0 then Num (a / b)
      else if a = 0 then NaN
      else if 0 < a then PInf else NInf)"

text \<open>
  The dynamically typed values a quote dictionary can hold: \<^verbatim>\<open>None\<close>, a number, a string.
\<close>

datatype pyval = PNone | PFloat real | PStr string

datatype pyerr = KeyError string | TypeError | AttributeError

text \<open>Python truthiness: \<^verbatim>\<open>None\<close>, \<^verbatim>\<open>0.0\<close> and the empty string are false.\<close>

fun truthy :: "pyval \<Rightarrow> bool" where
  "truthy PNone = False"
| "truthy (PFloat x) = (x \<noteq> 0)"
| "truthy (PStr s) = (s \<noteq> [])"

subsection \<open>The standard normal distribution (\<^verbatim>\<open>scipy.stats.norm\<close>)\<close>

text \<open>
  \<^verbatim>\<open>norm.pdf\<close> is the density \<open>exp (- x\<^sup>2 / 2) / sqrt (2 pi)\<close>. \<^verbatim>\<open>norm.cdf\<close> is the
  distribution function \<open>(1 + erf (x / sqrt 2)) / 2\<close>, where the error function is given by
  its Maclaurin series \<open>erf x = 2 / sqrt pi * (\<Sum>k. (-1)^k x^(2k+1) / (k! (2k+1)))\<close>.
  Below, \<open>norm_cdf\<close> is shown to be the antiderivative of \<open>norm_pdf\<close> with value \<open>1/2\<close> at \<open>0\<close>
  and limits \<open>0\<close> and \<open>1\<close> at the two infinities, which determines it.
\<close>

definition erf_coeff :: "nat \<Rightarrow> real" where
  "erf_coeff n = (if odd n then (- 1) ^ (n div 2) / (fact (n div 2) * real n) else 0)"

definition erf_series :: "real \<Rightarrow> real" where
  "erf_series x = (\<Sum>n. erf_coeff n * x ^ n)"

definition erf :: "real \<Rightarrow> real" where
  "erf x = 2 / sqrt pi * erf_series x"

definition norm_pdf :: "real \<Rightarrow> real" where
  "norm_pdf x = exp (- (x\<^sup>2) / 2) / sqrt (2 * pi)"

definition norm_cdf :: "real \<Rightarrow> real" where
  "norm_cdf x = (1 + erf (x / sqrt 2)) / 2"

text \<open>
  On the values of \<^verbatim>\<open>_d1_d2\<close>: \<^verbatim>\<open>norm.cdf(inf) = 1\<close>, \<^verbatim>\<open>norm.cdf(-inf) = 0\<close>,
  \<^verbatim>\<open>norm.pdf(inf) = norm.pdf(-inf) = 0\<close>.
\<close>

fun cdf :: "dval \<Rightarrow> real" where
  "cdf (Fin x) = norm_cdf x"
| "cdf PosInf = 1"
| "cdf NegInf = 0"

fun pdf :: "dval \<Rightarrow> real" where
  "pdf (Fin x) = norm_pdf x"
| "pdf PosInf = 0"
| "pdf NegInf = 0"

subsection \<open>The pricing kernel (\<^verbatim>\<open>utils/pricers/black_scholes.py\<close>)\<close>

definition d1_d2 :: "real \<Rightarrow> real \<Rightarrow> real \<Rightarrow> real \<Rightarrow> real \<Rightarrow> real \<Rightarrow> dval \<times> dval" where
  "d1_d2 S K r q sigma tau =
     (if tau \<le> 0 \<or> sigma \<le> 0 \<or> S \<le> 0 \<or> K \<le> 0 then (PosInf, PosInf)
      else
        let sqrt_t = sqrt tau;
            d1 = (ln (S / K) + (r - q + 0.5 * sigma\<^sup>2) * tau) / (sigma * sqrt_t);
            d2 = d1 - sigma * sqrt_t
        in (Fin d1, Fin d2))"

text \<open>
  \<^verbatim>\<open>option_type\<close> is a string; the kernel tests \<^verbatim>\<open>option_type == "C"\<close> and treats every other
  value as a put.
\<close>

definition black_scholes_price ::
  "real \<Rightarrow> real \<Rightarrow> real \<Rightarrow> real \<Rightarrow> real \<Rightarrow> real \<Rightarrow> string \<Rightarrow> real" where
  "black_scholes_price S K r q sigma tau option_type =
     (if tau \<le> 0 then
        (if option_type = ''C'' then max (S - K) 0 else max (K - S) 0)
      else if sigma \<le> 0 then
        (let df_r = exp (- r * tau); df_q = exp (- q * tau)
         in if option_type = ''C'' then max (S * df_q - K * df_r) 0
            else max (K * df_r - S * df_q) 0)
      else
        (let (d1, d2) = d1_d2 S K r q sigma tau;
             df_r = exp (- r * tau);
             df_q = exp (- q * tau)
         in if option_type = ''C'' then S * df_q * cdf d1 - K * df_r * cdf d2
            else K * df_r * cdf (d_neg d2) - S * df_q * cdf (d_neg d1)))"

definition bsm_vega :: "real \<Rightarrow> real \<Rightarrow> real \<Rightarrow> real \<Rightarrow> real \<Rightarrow> real \<Rightarrow> real" where
  "bsm_vega S K r q sigma tau =
     (if tau \<le> 0 \<or> sigma \<le> 0 then 0
      else let (d1, d2) = d1_d2 S K r q sigma tau
           in S * exp (- q * tau) * sqrt tau * pdf d1)"

definition bsm_delta ::
  "real \<Rightarrow> real \<Rightarrow> real \<Rightarrow> real \<Rightarrow> real \<Rightarrow> real \<Rightarrow> string \<Rightarrow> real" where
  "bsm_delta S K r q sigma tau option_type =
     (if tau \<le> 0 then
        (if option_type = ''C'' then (if S > K then 1 else 0)
         else (if S < K then - 1 else 0))
      else
        let (d1, d2) = d1_d2 S K r q sigma tau
        in if option_type = ''C'' then exp (- q * tau) * cdf d1
           else exp (- q * tau) * (cdf d1 - 1))"

text \<open>
  In \<^verbatim>\<open>bsm_gamma\<close> the numerator is a numpy scalar (\<^verbatim>\<open>norm.pdf\<close> returns one), so the
  division by \<^verbatim>\<open>S * sigma * sqrt(tau)\<close> is numpy's: at \<open>S = 0\<close> it yields NaN.
\<close>

definition bsm_gamma :: "real \<Rightarrow> real \<Rightarrow> real \<Rightarrow> real \<Rightarrow> real \<Rightarrow> real \<Rightarrow> pyfloat" where
  "bsm_gamma S K r q sigma tau =
     (if tau \<le> 0 \<or> sigma \<le> 0 then Num 0
      else let (d1, d2) = d1_d2 S K r q sigma tau
           in np_div (exp (- q * tau) * pdf d1) (S * sigma * sqrt tau))"

definition bsm_theta ::
  "real \<Rightarrow> real \<Rightarrow> real \<Rightarrow> real \<Rightarrow> real \<Rightarrow> real \<Rightarrow> string \<Rightarrow> real" where
  "bsm_theta S K r q sigma tau option_type =
     (if tau \<le> 0 then 0
      else
        let (d1, d2) = d1_d2 S K r q sigma tau;
            df_r = exp (- r * tau);
            df_q = exp (- q * tau);
            term1 = - (S * df_q * pdf d1 * sigma) / (2 * sqrt tau)
        in if option_type = ''C'' then
             (let term2 = q * S * df_q * cdf d1;
                  term3 = - r * K * df_r * cdf d2
              in term1 + term2 + term3)
           else
             (let term2 = - q * S * df_q * cdf (d_neg d1);
                  term3 = r * K * df_r * cdf (d_neg d2)
              in term1 + term2 + term3))"

definition bsm_rho ::
  "real \<Rightarrow> real \<Rightarrow> real \<Rightarrow> real \<Rightarrow> real \<Rightarrow> real \<Rightarrow> string \<Rightarrow> real" where
  "bsm_rho S K r q sigma tau option_type =
     (if tau \<le> 0 then 0
      else
        let (d1, d2) = d1_d2 S K r q sigma tau;
            df_r = exp (- r * tau)
        in if option_type = ''C'' then K * tau * df_r * cdf d2
           else - K * tau * df_r * cdf (d_neg d2))"

subsection \<open>The solver (\<^verbatim>\<open>utils/pricers/implied_volatility.py\<close>)\<close>

text \<open>\<^verbatim>\<open>option_type.upper().startswith("C")\<close>\<close>

fun upper_startswith_C :: "string \<Rightarrow> bool" where
  "upper_startswith_C [] = False"
| "upper_startswith_C (c # cs) = (c = CHR ''C'' \<or> c = CHR ''c'')"

definition price_bounds :: "real \<Rightarrow> real \<Rightarrow> real \<Rightarrow> real \<Rightarrow> real \<Rightarrow> string \<Rightarrow> real \<times> real" where
  "price_bounds S K r q tau option_type =
     (let df_r = exp (- r * tau); df_q = exp (- q * tau)
      in if upper_startswith_C option_type
         then (max 0 (S * df_q - K * df_r), S * df_q)
         else (max 0 (K * df_r - S * df_q), K * df_r))"

text \<open>
  The solver writes a trace to the console. Each \<^verbatim>\<open>print\<close> is an event, carrying the numbers
  it formats; the banner \<^verbatim>\<open>--- NEWTON START ---\<close> (or \<^verbatim>\<open>--- BISECTION START ---\<close>) and
  the parameter line printed right after it are one event.
\<close>

datatype event =
    NewtonStart
  | NewtonIter nat real real real real real
  | NewtonSuccess real
  | VegaTooSmall
  | SigmaReset
  | NewtonFailed
  | BisectionStart
  | BisectionIter nat real real real real
  | BisectionSuccess real
  | BisectionEnd real

text \<open>
  The body of \<^verbatim>\<open>for i in range(max_iter)\<close> in \<^verbatim>\<open>implied_vol_newton\<close>: \<open>n\<close> iterations are
  left, \<open>i\<close> is the loop index. The result is the console output and the returned value
  (\<open>None\<close> for Python's \<^verbatim>\<open>None\<close>).
\<close>

fun newton_loop ::
  "real \<Rightarrow> real \<Rightarrow> real \<Rightarrow> real \<Rightarrow> real \<Rightarrow> real \<Rightarrow> string \<Rightarrow> real \<Rightarrow> nat \<Rightarrow> nat \<Rightarrow> real
     \<Rightarrow> event list \<times> real option" where
  "newton_loop market_price S K r q tau option_type tol 0 i sigma = ([NewtonFailed], None)"
| "newton_loop market_price S K r q tau option_type tol (Suc n) i sigma =
     (let model_price = black_scholes_price S K r q sigma tau option_type;
          diff = model_price - market_price;
          v = bsm_vega S K r q sigma tau;
          line = NewtonIter i sigma model_price market_price diff v
      in if \<bar>diff\<bar> < tol then ([line, NewtonSuccess sigma], Some sigma)
         else if v < 1 / 10 ^ 8 then ([line, VegaTooSmall], None)
         else
           let sigma' = sigma - diff / v
           in if sigma' \<le> 0 then
                (case newton_loop market_price S K r q tau option_type tol n (Suc i) (1 / 10 ^ 6)
                 of (out, res) \<Rightarrow> (line # SigmaReset # out, res))
              else
                (case newton_loop market_price S K r q tau option_type tol n (Suc i) sigma'
                 of (out, res) \<Rightarrow> (line # out, res)))"

text \<open>\<^verbatim>\<open>range(max_iter)\<close> is empty for a budget that is not positive, hence \<open>nat max_iter\<close>.\<close>

definition implied_vol_newton ::
  "real \<Rightarrow> real \<Rightarrow> real \<Rightarrow> real \<Rightarrow> real \<Rightarrow> real \<Rightarrow> string \<Rightarrow> real \<Rightarrow> real \<Rightarrow> int
     \<Rightarrow> event list \<times> real option" where
  "implied_vol_newton market_price S K r q tau option_type initial_vol tol max_iter =
     (case newton_loop market_price S K r q tau option_type tol (nat max_iter) 0 initial_vol
      of (out, res) \<Rightarrow> (NewtonStart # out, res))"

fun bisection_loop ::
  "real \<Rightarrow> real \<Rightarrow> real \<Rightarrow> real \<Rightarrow> real \<Rightarrow> real \<Rightarrow> string \<Rightarrow> real \<Rightarrow> nat \<Rightarrow> nat \<Rightarrow> real \<Rightarrow> real
     \<Rightarrow> event list \<times> real" where
  "bisection_loop market_price S K r q tau option_type tol 0 i low high =
     (let final_sigma = (low + high) / 2 in ([BisectionEnd final_sigma], final_sigma))"
| "bisection_loop market_price S K r q tau option_type tol (Suc n) i low high =
     (let mid = (low + high) / 2;
          price = black_scholes_price S K r q mid tau option_type;
          line = BisectionIter i mid price low high
      in if \<bar>price - market_price\<bar> < tol then ([line, BisectionSuccess mid], mid)
         else if price > market_price then
           (case bisection_loop market_price S K r q tau option_type tol n (Suc i) low mid
            of (out, res) \<Rightarrow> (line # out, res))
         else
           (case bisection_loop market_price S K r q tau option_type tol n (Suc i) mid high
            of (out, res) \<Rightarrow> (line # out, res)))"

definition implied_vol_bisection ::
  "real \<Rightarrow> real \<Rightarrow> real \<Rightarrow> real \<Rightarrow> real \<Rightarrow> real \<Rightarrow> string \<Rightarrow> real \<Rightarrow> real \<Rightarrow> real \<Rightarrow> int
     \<Rightarrow> event list \<times> real" where
  "implied_vol_bisection market_price S K r q tau option_type low high tol max_iter =
     (case bisection_loop market_price S K r q tau option_type tol (nat max_iter) 0 low high
      of (out, res) \<Rightarrow> (BisectionStart # out, res))"

text \<open>
  The unified solver on numbers. (The guard \<^verbatim>\<open>price is None or S is None or K is None or
  tau is None\<close> is part of \<open>solve_quote\<close> below, where a value can be \<^verbatim>\<open>None\<close>.)
\<close>

definition implied_volatility ::
  "real \<Rightarrow> real \<Rightarrow> real \<Rightarrow> real \<Rightarrow> real \<Rightarrow> real \<Rightarrow> string \<Rightarrow> real \<Rightarrow> real \<Rightarrow> int \<Rightarrow> real \<Rightarrow> real \<Rightarrow> int
     \<Rightarrow> event list \<times> real option" where
  "implied_volatility price S K r q tau option_type initial_vol tol max_iter_newton
       low high max_iter_bisection =
     (if tau \<le> 0 then ([], None)
      else
        case implied_vol_newton price S K r q tau option_type initial_vol tol max_iter_newton of
          (out, Some iv_nr) \<Rightarrow> (out, Some iv_nr)
        | (out, None) \<Rightarrow>
            (let (lb, ub) = price_bounds S K r q tau option_type
             in if price < lb - 1 / 10 ^ 12 \<or> price > ub + 1 / 10 ^ 12 then (out, None)
                else
                  case implied_vol_bisection price S K r q tau option_type low high tol
                         max_iter_bisection of
                    (out', res) \<Rightarrow> (out @ out', Some res)))"

text \<open>
  The call with the default settings: \<^verbatim>\<open>initial_vol=0.2, tol=1e-6, max_iter_newton=30,
  low=1e-6, high=5.0, max_iter_bisection=200\<close>.
\<close>

definition implied_volatility_default ::
  "real \<Rightarrow> real \<Rightarrow> real \<Rightarrow> real \<Rightarrow> real \<Rightarrow> real \<Rightarrow> string \<Rightarrow> event list \<times> real option" where
  "implied_volatility_default price S K r q tau option_type =
     implied_volatility price S K r q tau option_type (1 / 5) (1 / 10 ^ 6) 30 (1 / 10 ^ 6) 5 200"

subsection \<open>The older solver (\<^verbatim>\<open>pricers/implied_volatility.py\<close>)\<close>

text \<open>
  This module imports \<^verbatim>\<open>black_scholes_price\<close> and \<^verbatim>\<open>bsm_vega\<close> from \<^verbatim>\<open>pricers.black_scholes\<close>,
  a file the repository does not contain; the two functions are parameters \<open>price_fn\<close>
  and \<open>vega_fn\<close> here. The module prints nothing.
\<close>

fun simple_newton_loop ::
  "(real \<Rightarrow> real \<Rightarrow> real \<Rightarrow> real \<Rightarrow> real \<Rightarrow> real \<Rightarrow> string \<Rightarrow> real)
     \<Rightarrow> (real \<Rightarrow> real \<Rightarrow> real \<Rightarrow> real \<Rightarrow> real \<Rightarrow> real \<Rightarrow> real)
     \<Rightarrow> real \<Rightarrow> real \<Rightarrow> real \<Rightarrow> real \<Rightarrow> real \<Rightarrow> real \<Rightarrow> string \<Rightarrow> real \<Rightarrow> nat \<Rightarrow> real \<Rightarrow> real option" where
  "simple_newton_loop price_fn vega_fn market_price S K r q tau option_type tol 0 sigma = None"
| "simple_newton_loop price_fn vega_fn market_price S K r q tau option_type tol (Suc n) sigma =
     (let model_price = price_fn S K r q sigma tau option_type;
          diff = model_price - market_price
      in if \<bar>diff\<bar> < tol then Some sigma
         else
           let v = vega_fn S K r q sigma tau
           in if v < 1 / 10 ^ 8 then None
              else
                let sigma' = sigma - diff / v
                in if sigma' \<le> 0 then
                     simple_newton_loop price_fn vega_fn market_price S K r q tau option_type
                       tol n (1 / 10 ^ 6)
                   else
                     simple_newton_loop price_fn vega_fn market_price S K r q tau option_type
                       tol n sigma')"

definition simple_implied_vol_newton ::
  "(real \<Rightarrow> real \<Rightarrow> real \<Rightarrow> real \<Rightarrow> real \<Rightarrow> real \<Rightarrow> string \<Rightarrow> real)
     \<Rightarrow> (real \<Rightarrow> real \<Rightarrow> real \<Rightarrow> real \<Rightarrow> real \<Rightarrow> real \<Rightarrow> real)
     \<Rightarrow> real \<Rightarrow> real \<Rightarrow> real \<Rightarrow> real \<Rightarrow> real \<Rightarrow> real \<Rightarrow> string \<Rightarrow> real \<Rightarrow> real \<Rightarrow> int \<Rightarrow> real option" where
  "simple_implied_vol_newton price_fn vega_fn market_price S K r q tau option_type
       initial_vol tol max_iter =
     simple_newton_loop price_fn vega_fn market_price S K r q tau option_type tol
       (nat max_iter) initial_vol"

fun simple_bisection_loop ::
  "(real \<Rightarrow> real \<Rightarrow> real \<Rightarrow> real \<Rightarrow> real \<Rightarrow> real \<Rightarrow> string \<Rightarrow> real)
     \<Rightarrow> real \<Rightarrow> real \<Rightarrow> real \<Rightarrow> real \<Rightarrow> real \<Rightarrow> real \<Rightarrow> string \<Rightarrow> real \<Rightarrow> nat \<Rightarrow> real \<Rightarrow> real \<Rightarrow> real" where
  "simple_bisection_loop price_fn market_price S K r q tau option_type tol 0 low high =
     (low + high) / 2"
| "simple_bisection_loop price_fn market_price S K r q tau option_type tol (Suc n) low high =
     (let mid = (low + high) / 2;
          price = price_fn S K r q mid tau option_type
      in if \<bar>price - market_price\<bar> < tol then mid
         else if price > market_price then
           simple_bisection_loop price_fn market_price S K r q tau option_type tol n low mid
         else
           simple_bisection_loop price_fn market_price S K r q tau option_type tol n mid high)"

definition simple_implied_vol_bisection ::
  "(real \<Rightarrow> real \<Rightarrow> real \<Rightarrow> real \<Rightarrow> real \<Rightarrow> real \<Rightarrow> string \<Rightarrow> real)
     \<Rightarrow> real \<Rightarrow> real \<Rightarrow> real \<Rightarrow> real \<Rightarrow> real \<Rightarrow> real \<Rightarrow> string \<Rightarrow> real \<Rightarrow> real \<Rightarrow> real \<Rightarrow> int \<Rightarrow> real" where
  "simple_implied_vol_bisection price_fn market_price S K r q tau option_type
       low high tol max_iter =
     simple_bisection_loop price_fn market_price S K r q tau option_type tol
       (nat max_iter) low high"

subsection \<open>The chain processor (\<^verbatim>\<open>utils/data_processors/option_chain_processor.py\<close>)\<close>

text \<open>
  A raw quote is a dictionary from field names to values; \<^verbatim>\<open>row["k"]\<close> raises \<^verbatim>\<open>KeyError\<close>
  on a missing key.
\<close>

type_synonym quote = "string \<rightharpoonup> pyval"

definition lookup :: "quote \<Rightarrow> string \<Rightarrow> pyerr + pyval" where
  "lookup row k = (case row k of None \<Rightarrow> Inl (KeyError k) | Some v \<Rightarrow> Inr v)"

record OptionPoint =
  symbol :: pyval
  expiry :: pyval
  strike :: pyval
  otype :: pyval
  bid :: pyval
  ask :: pyval
  mid :: "real option"
  implied_vol :: "real option"
  delta :: "real option"
  gamma :: "pyfloat option"
  theta :: "real option"
  rho :: "real option"

record OptionChainProcessor =
  risk_free_rate :: real
  dividend_yield :: real

text \<open>
  \<^verbatim>\<open>mid = (bid + ask) / 2 if (bid and ask) else None\<close>. The test is Python truthiness, so a
  side that is \<^verbatim>\<open>None\<close>, \<^verbatim>\<open>0.0\<close> or \<^verbatim>\<open>""\<close> gives no mid. Two numbers are averaged; two
  strings are concatenated and the division of the result raises \<^verbatim>\<open>TypeError\<close>, as does the
  sum of a number and a string.
\<close>

definition mid_price :: "pyval \<Rightarrow> pyval \<Rightarrow> pyerr + real option" where
  "mid_price b a =
     (if truthy b \<and> truthy a then
        (case (b, a) of
           (PFloat x, PFloat y) \<Rightarrow> Inr (Some ((x + y) / 2))
         | _ \<Rightarrow> Inl TypeError)
      else Inr None)"

text \<open>
  What the kernel sees of \<^verbatim>\<open>row["type"]\<close>: it only tests \<^verbatim>\<open>option_type == "C"\<close>, and a value
  that is not a string compares unequal to \<^verbatim>\<open>"C"\<close>, as the empty string does.
\<close>

fun kernel_type :: "pyval \<Rightarrow> string" where
  "kernel_type (PStr s) = s"
| "kernel_type v = []"

text \<open>
  The \<^verbatim>\<open>try: iv = implied_volatility(price=mid, S=spot, K=row["strike"], ...,
  option_type=row["type"]) except Exception: iv = None\<close> block, for a numeric \<open>m\<close>
  (the mid) and numeric \<open>spot\<close>, \<open>tau\<close>, rates:
  \<^item> a missing \<^verbatim>\<open>"strike"\<close> or \<^verbatim>\<open>"type"\<close> key raises \<^verbatim>\<open>KeyError\<close> inside the block: \<open>None\<close>;
  \<^item> \<^verbatim>\<open>K is None\<close> returns \<open>None\<close> by the solver's guard, \<^verbatim>\<open>tau <= 0\<close> likewise;
  \<^item> a string strike makes the first pricing of the Newton phase raise \<^verbatim>\<open>TypeError\<close>, after
    the banner has been printed: \<open>None\<close>;
  \<^item> a type that is not a string is priced as a put by the Newton phase, and if that phase
    is inconclusive \<^verbatim>\<open>_price_bounds\<close> raises \<^verbatim>\<open>AttributeError\<close> on \<^verbatim>\<open>option_type.upper()\<close>:
    \<open>None\<close>.
\<close>

definition solve_quote ::
  "real \<Rightarrow> real \<Rightarrow> quote \<Rightarrow> real \<Rightarrow> real \<Rightarrow> real \<Rightarrow> event list \<times> real option" where
  "solve_quote m spot row r q tau =
     (case row ''strike'' of
        None \<Rightarrow> ([], None)
      | Some K \<Rightarrow>
          (case row ''type'' of
             None \<Rightarrow> ([], None)
           | Some ot \<Rightarrow>
               (case K of
                  PNone \<Rightarrow> ([], None)
                | PStr s \<Rightarrow> (if tau \<le> 0 then ([], None) else ([NewtonStart], None))
                | PFloat k \<Rightarrow>
                    (case ot of
                       PStr s \<Rightarrow> implied_volatility_default m spot k r q tau s
                     | _ \<Rightarrow>
                         (if tau \<le> 0 then ([], None)
                          else implied_vol_newton m spot k r q tau (kernel_type ot)
                                 (1 / 5) (1 / 10 ^ 6) 30)))))"

text \<open>
  The Greeks, computed \<^verbatim>\<open>if iv:\<close> (truthiness again: an \<open>iv\<close> of \<open>0.0\<close> counts as absent).
  They read \<^verbatim>\<open>row["strike"]\<close> and \<^verbatim>\<open>row["type"]\<close> outside the \<^verbatim>\<open>try\<close> block.
\<close>

definition greeks ::
  "real option \<Rightarrow> real \<Rightarrow> quote \<Rightarrow> real \<Rightarrow> real \<Rightarrow> real
     \<Rightarrow> pyerr + (real option \<times> pyfloat option \<times> real option \<times> real option)" where
  "greeks iv spot row r q tau =
     (case iv of
        None \<Rightarrow> Inr (None, None, None, None)
      | Some v \<Rightarrow>
          (if v = 0 then Inr (None, None, None, None)
           else
             case lookup row ''strike'' of
               Inl e \<Rightarrow> Inl e
             | Inr K \<Rightarrow>
                 (case lookup row ''type'' of
                    Inl e \<Rightarrow> Inl e
                  | Inr ot \<Rightarrow>
                      (case K of
                         PFloat k \<Rightarrow>
                           Inr (Some (bsm_delta spot k r q v tau (kernel_type ot)),
                                Some (bsm_gamma spot k r q v tau),
                                Some (bsm_theta spot k r q v tau (kernel_type ot)),
                                Some (bsm_rho spot k r q v tau (kernel_type ot)))
                       | _ \<Rightarrow> Inl TypeError))))"

text \<open>One pass of the loop body of \<^verbatim>\<open>process_chain\<close>: the console output and the point or the
  exception raised.\<close>

definition process_row ::
  "OptionChainProcessor \<Rightarrow> quote \<Rightarrow> real \<Rightarrow> real \<Rightarrow> event list \<times> (pyerr + OptionPoint)" where
  "process_row self row spot tau =
     (case lookup row ''bid'' of
        Inl e \<Rightarrow> ([], Inl e)
      | Inr b \<Rightarrow>
     (case lookup row ''ask'' of
        Inl e \<Rightarrow> ([], Inl e)
      | Inr a \<Rightarrow>
     (case mid_price b a of
        Inl e \<Rightarrow> ([], Inl e)
      | Inr m \<Rightarrow>
     (case (case m of
              None \<Rightarrow> ([], None)
            | Some x \<Rightarrow>
                if x \<noteq> 0 \<and> x > 0
                then solve_quote x spot row (risk_free_rate self) (dividend_yield self) tau
                else ([], None))
      of (out, iv) \<Rightarrow>
     (case greeks iv spot row (risk_free_rate self) (dividend_yield self) tau of
        Inl e \<Rightarrow> (out, Inl e)
      | Inr (dl, gm, th, rh) \<Rightarrow>
     (case lookup row ''symbol'' of
        Inl e \<Rightarrow> (out, Inl e)
      | Inr sy \<Rightarrow>
     (case lookup row ''expiry'' of
        Inl e \<Rightarrow> (out, Inl e)
      | Inr ex \<Rightarrow>
     (case lookup row ''strike'' of
        Inl e \<Rightarrow> (out, Inl e)
      | Inr K \<Rightarrow>
     (case lookup row ''type'' of
        Inl e \<Rightarrow> (out, Inl e)
      | Inr ot \<Rightarrow>
          (out, Inr \<lparr> symbol = sy, expiry = ex, strike = K, otype = ot, bid = b, ask = a,
                      mid = m, implied_vol = iv, delta = dl, gamma = gm, theta = th,
                      rho = rh \<rparr>))))))))))"

text \<open>
  \<^verbatim>\<open>for row in raw_chain: ... processed.append(...)\<close>: an exception in one pass leaves the
  loop and the call; the output printed so far stays printed.
\<close>

fun process_chain ::
  "OptionChainProcessor \<Rightarrow> quote list \<Rightarrow> real \<Rightarrow> real \<Rightarrow> event list \<times> (pyerr + OptionPoint list)" where
  "process_chain self [] spot tau = ([], Inr [])"
| "process_chain self (row # raw_chain) spot tau =
     (case process_row self row spot tau of
        (out, Inl e) \<Rightarrow> (out, Inl e)
      | (out, Inr p) \<Rightarrow>
          (case process_chain self raw_chain spot tau of
             (out', Inl e) \<Rightarrow> (out @ out', Inl e)
           | (out', Inr ps) \<Rightarrow> (out @ out', Inr (p # ps))))"

subsection \<open>The expected input format\<close>



subsection \<open>Auxiliary functions for the analysis of the normal distribution\<close>

text \<open>
  The limits of \<open>norm_cdf\<close> at infinity rest on the Gaussian integral, obtained here from
  Wallis' integrals. The three families below are explicit antiderivatives (vanishing at
  \<open>0\<close>), each defined by the recurrence that integration by parts gives.
\<close>


fun rat_int :: "nat \<Rightarrow> real \<Rightarrow> real" where
  "rat_int 0 x = arctan x"
| "rat_int (Suc n) x = (x / (1 + x\<^sup>2) ^ Suc n + real (2 * n + 1) * rat_int n x) / real (2 * n + 2)"

fun sin_int :: "nat \<Rightarrow> real \<Rightarrow> real" where
  "sin_int 0 x = x"
| "sin_int (Suc 0) x = 1 - cos x"
| "sin_int (Suc (Suc n)) x = (- (sin x ^ Suc n * cos x) + real (n + 1) * sin_int n x) / real (n + 2)"

definition wallis :: "nat \<Rightarrow> real" where
  "wallis n = sin_int n (pi / 2)"

subsection \<open>Auxiliary notions for the pricing kernel\<close>


section \<open>Properties\<close>

subsection \<open>The normal distribution function\<close>

lemma summable_erf_terms: "summable (\<lambda>n. erf_coeff n * x ^ n)"
proof -
  let ?g = "\<lambda>k. (- 1) ^ k / (fact k * real (2 * k + 1)) * x ^ (2 * k + 1)"
  have "summable (\<lambda>k. norm (?g k))"
  proof (rule summable_comparison_test')
    show "summable (\<lambda>k. \<bar>x\<bar> * ((x\<^sup>2) ^ k / fact k))"
      by (intro summable_mult) (use summable_exp[of "x\<^sup>2"] in \<open>simp add: field_simps\<close>)
    show "norm (norm (?g k)) \<le> \<bar>x\<bar> * ((x\<^sup>2) ^ k / fact k)" if "k \<ge> 0" for k
    proof -
      have "\<bar>x\<bar> ^ (2 * k) = (x\<^sup>2) ^ k" by (simp add: power_mult)
      then have "norm (?g k) = \<bar>x\<bar> * ((x\<^sup>2) ^ k / fact k) / real (2 * k + 1)"
        by (simp add: abs_mult power_abs)
      also have "\<dots> \<le> \<bar>x\<bar> * ((x\<^sup>2) ^ k / fact k) / 1"
        by (intro divide_left_mono) (simp_all add: mult_nonneg_nonneg)
      finally show ?thesis by simp
    qed
  qed
  then have "summable ?g" by (rule summable_norm_cancel)
  then have "?g sums suminf ?g" by (rule summable_sums)
  from sums_if'[OF this]
  have "(\<lambda>n. if even n then 0 else ?g ((n - 1) div 2)) sums suminf ?g" .
  moreover have "(\<lambda>n. if even n then 0 else ?g ((n - 1) div 2)) = (\<lambda>n. erf_coeff n * x ^ n)"
  proof
    fix n
    show "(if even n then 0 else ?g ((n - 1) div 2)) = erf_coeff n * x ^ n"
    proof (cases "even n")
      case True
      then show ?thesis by (simp add: erf_coeff_def)
    next
      case False
      then obtain k where "n = 2 * k + 1" by (auto elim: oddE)
      then show ?thesis by (simp add: erf_coeff_def)
    qed
  qed
  ultimately show ?thesis by (auto simp: sums_iff)
qed

lemma diffs_erf_coeff:
  "diffs erf_coeff n = (if even n then (- 1) ^ (n div 2) / fact (n div 2) else 0)"
  by (auto simp: diffs_def erf_coeff_def elim!: evenE)

lemma exp_minus_sq_sums:
  "(\<lambda>n. diffs erf_coeff n * x ^ n) sums exp (- (x\<^sup>2))"
proof -
  let ?f = "\<lambda>k. (- (x\<^sup>2)) ^ k /\<^sub>R fact k"
  have f: "?f sums exp (- (x\<^sup>2))" by (rule exp_converges)
  have z: "(\<lambda>k. 0::real) sums 0" by simp
  from sums_if[OF z f]
  have "(\<lambda>n. if even n then ?f (n div 2) else 0) sums exp (- (x\<^sup>2))" by simp
  moreover have "(\<lambda>n. if even n then ?f (n div 2) else 0) = (\<lambda>n. diffs erf_coeff n * x ^ n)"
  proof
    fix n
    show "(if even n then ?f (n div 2) else 0) = diffs erf_coeff n * x ^ n"
    proof (cases "even n")
      case True
      then obtain k where n: "n = 2 * k" by (auto elim: evenE)
      have "x ^ n = (x\<^sup>2) ^ k" unfolding n by (simp add: power_mult)
      then show ?thesis
        using n by (simp add: diffs_erf_coeff power_minus[of "x\<^sup>2"] field_simps)
    next
      case False
      then show ?thesis by (simp add: diffs_erf_coeff)
    qed
  qed
  ultimately show ?thesis by simp
qed

lemma DERIV_erf_series: "DERIV erf_series x :> exp (- (x\<^sup>2))"
proof -
  have "((\<lambda>x. \<Sum>n. erf_coeff n * x ^ n) has_field_derivative (\<Sum>n. diffs erf_coeff n * x ^ n)) (at x)"
    by (rule termdiffs_strong_converges_everywhere) (rule summable_erf_terms)
  moreover have "(\<Sum>n. diffs erf_coeff n * x ^ n) = exp (- (x\<^sup>2))"
    using exp_minus_sq_sums[of x] by (simp add: sums_iff)
  moreover have "erf_series = (\<lambda>x. \<Sum>n. erf_coeff n * x ^ n)"
    by (rule ext) (simp add: erf_series_def)
  ultimately show ?thesis by simp
qed

lemma erf_series_0: "erf_series 0 = 0"
proof -
  have "erf_series 0 = erf_coeff 0" unfolding erf_series_def by (rule powser_zero)
  then show ?thesis by (simp add: erf_coeff_def)
qed

lemma erf_series_minus: "erf_series (- x) = - erf_series x"
proof -
  have "(\<lambda>n. erf_coeff n * (- x) ^ n) = (\<lambda>n. - (erf_coeff n * x ^ n))"
    by (rule ext) (auto simp: erf_coeff_def)
  then show ?thesis
    unfolding erf_series_def using suminf_minus[OF summable_erf_terms[of x]] by simp
qed

lemma DERIV_norm_cdf: "DERIV norm_cdf x :> norm_pdf x"
proof -
  define E where "E = exp (- ((x / sqrt 2)\<^sup>2)) * (1 / sqrt 2)"
  have 1: "DERIV (\<lambda>x. erf_series (x / sqrt 2)) x :> E"
    unfolding E_def by (rule DERIV_chain'[OF DERIV_cdivide[OF DERIV_ident] DERIV_erf_series])
  have 2: "DERIV (\<lambda>x. 2 / sqrt pi * erf_series (x / sqrt 2)) x :> 2 / sqrt pi * E"
    by (rule DERIV_cmult[OF 1])
  have 3: "DERIV (\<lambda>x. 1 + 2 / sqrt pi * erf_series (x / sqrt 2)) x :> 0 + 2 / sqrt pi * E"
    by (rule DERIV_add[OF DERIV_const 2])
  have 4: "DERIV (\<lambda>x. (1 + 2 / sqrt pi * erf_series (x / sqrt 2)) / 2) x
             :> (0 + 2 / sqrt pi * E) / 2"
    by (rule DERIV_cdivide[OF 3])
  have sq: "(x / sqrt 2)\<^sup>2 = x\<^sup>2 / 2" by (simp add: power_divide)
  have "(0 + 2 / sqrt pi * E) / 2 = norm_pdf x"
    unfolding E_def norm_pdf_def sq by (simp add: real_sqrt_mult)
  moreover have "norm_cdf = (\<lambda>x. (1 + 2 / sqrt pi * erf_series (x / sqrt 2)) / 2)"
    by (rule ext) (simp add: norm_cdf_def erf_def)
  ultimately show ?thesis using 4 by simp
qed

lemma norm_cdf_0: "norm_cdf 0 = 1 / 2"
  by (simp add: norm_cdf_def erf_def erf_series_0)

lemma norm_cdf_minus: "norm_cdf (- x) = 1 - norm_cdf x"
  by (simp add: norm_cdf_def erf_def erf_series_minus field_simps)

lemma norm_pdf_pos: "0 < norm_pdf x"
  by (simp add: norm_pdf_def)


lemma norm_cdf_strict_mono: "x < y \<Longrightarrow> norm_cdf x < norm_cdf y"
  by (rule DERIV_pos_imp_increasing[of x y norm_cdf])
     (auto intro: DERIV_norm_cdf norm_pdf_pos)

subsection \<open>Wallis' integrals and the Gaussian integral\<close>

lemma antiderivative_mono:
  fixes F G :: "real \<Rightarrow> real"
  assumes ab: "a \<le> b"
    and F: "\<And>x. a \<le> x \<Longrightarrow> x \<le> b \<Longrightarrow> DERIV F x :> f x"
    and G: "\<And>x. a \<le> x \<Longrightarrow> x \<le> b \<Longrightarrow> DERIV G x :> g x"
    and le: "\<And>x. a \<le> x \<Longrightarrow> x \<le> b \<Longrightarrow> f x \<le> g x"
  shows "F b - F a \<le> G b - G a"
proof -
  have "(\<lambda>x. G x - F x) a \<le> (\<lambda>x. G x - F x) b"
  proof (rule DERIV_nonneg_imp_nondecreasing[OF ab])
    fix x assume x: "a \<le> x" "x \<le> b"
    have "DERIV (\<lambda>x. G x - F x) x :> g x - f x"
      by (rule DERIV_diff[OF G[OF x] F[OF x]])
    moreover have "0 \<le> g x - f x" using le[OF x] by simp
    ultimately show "\<exists>y. DERIV (\<lambda>x. G x - F x) x :> y \<and> 0 \<le> y" by blast
  qed
  then show ?thesis by simp
qed


lemma DERIV_rat_int: "DERIV (rat_int n) x :> 1 / (1 + x\<^sup>2) ^ Suc n"
proof (induction n)
  case 0
  have "rat_int 0 = arctan" by (rule ext) simp
  then show ?case using DERIV_arctan[of x] by (simp add: field_simps)
next
  case (Suc n)
  have pos: "0 < 1 + x\<^sup>2" by (simp add: add_pos_nonneg)
  then have nz: "(1 + x\<^sup>2) ^ Suc n \<noteq> 0" by simp
  have eq: "rat_int (Suc n) = (\<lambda>x. (x / (1 + x\<^sup>2) ^ Suc n + real (2 * n + 1) * rat_int n x) / real (2 * n + 2))"
    by (rule ext) simp
  have b: "DERIV (\<lambda>x. 1 + x\<^sup>2) x :> 2 * x"
    by (auto intro!: derivative_eq_intros)
  have d1: "DERIV (\<lambda>x. (1 + x\<^sup>2) ^ Suc n) x :> real (Suc n) * (1 + x\<^sup>2) ^ n * (2 * x)"
    using DERIV_power[OF b, of "Suc n"] by (simp del: power_Suc add: mult_ac)
  have d2: "DERIV (\<lambda>x. x / (1 + x\<^sup>2) ^ Suc n) x
      :> (1 * (1 + x\<^sup>2) ^ Suc n - x * (real (Suc n) * (1 + x\<^sup>2) ^ n * (2 * x)))
           / ((1 + x\<^sup>2) ^ Suc n * (1 + x\<^sup>2) ^ Suc n)"
    by (rule DERIV_divide[OF DERIV_ident d1 nz])
  have "DERIV (\<lambda>x. (x / (1 + x\<^sup>2) ^ Suc n + real (2 * n + 1) * rat_int n x) / real (2 * n + 2)) x
     :> ((1 * (1 + x\<^sup>2) ^ Suc n - x * (real (Suc n) * (1 + x\<^sup>2) ^ n * (2 * x)))
           / ((1 + x\<^sup>2) ^ Suc n * (1 + x\<^sup>2) ^ Suc n)
         + real (2 * n + 1) * (1 / (1 + x\<^sup>2) ^ Suc n)) / real (2 * n + 2)"
    by (intro DERIV_cdivide DERIV_add DERIV_cmult Suc.IH d2)
  moreover have "((1 * (1 + x\<^sup>2) ^ Suc n - x * (real (Suc n) * (1 + x\<^sup>2) ^ n * (2 * x)))
           / ((1 + x\<^sup>2) ^ Suc n * (1 + x\<^sup>2) ^ Suc n)
         + real (2 * n + 1) * (1 / (1 + x\<^sup>2) ^ Suc n)) / real (2 * n + 2)
       = 1 / (1 + x\<^sup>2) ^ Suc (Suc n)"
  proof -
    define u where "u = 1 + x\<^sup>2"
    have u: "0 < u" "x\<^sup>2 = u - 1" using pos by (simp_all add: u_def)
    have "x * (real (Suc n) * u ^ n * (2 * x)) = 2 * real (Suc n) * u ^ n * x\<^sup>2"
      by (simp add: power2_eq_square)
    also have "\<dots> = 2 * real (Suc n) * u ^ Suc n - 2 * real (Suc n) * u ^ n"
      unfolding u(2) by (simp add: algebra_simps)
    finally have a: "(1 * u ^ Suc n - x * (real (Suc n) * u ^ n * (2 * x)))
         = u ^ n * (2 * real (Suc n) - real (2 * n + 1) * u)"
      by (simp add: algebra_simps)
    have "(1 * u ^ Suc n - x * (real (Suc n) * u ^ n * (2 * x))) / (u ^ Suc n * u ^ Suc n)
         + real (2 * n + 1) * (1 / u ^ Suc n)
        = real (2 * n + 2) / u ^ Suc (Suc n)"
      unfolding a using u(1) by (simp add: field_simps)
    then show ?thesis unfolding u_def by simp
  qed
  ultimately show ?case unfolding eq by simp
qed

lemma DERIV_sin_int: "DERIV (sin_int n) x :> sin x ^ n"
proof (induction n x rule: sin_int.induct)
  case (1 x)
  have "sin_int 0 = (\<lambda>x. x)" by (rule ext) simp
  then show ?case by simp
next
  case (2 x)
  have "sin_int (Suc 0) = (\<lambda>x. 1 - cos x)" by (rule ext) simp
  moreover have "DERIV (\<lambda>x. 1 - cos x) x :> sin x"
    by (auto intro!: derivative_eq_intros)
  ultimately show ?case by simp
next
  case (3 n x)
  have eq: "sin_int (Suc (Suc n))
      = (\<lambda>x. (- (sin x ^ Suc n * cos x) + real (n + 1) * sin_int n x) / real (n + 2))"
    by (rule ext) simp
  have p: "DERIV (\<lambda>x. sin x ^ Suc n) x :> real (Suc n) * sin x ^ n * cos x"
    using DERIV_power[OF DERIV_sin, of "Suc n" x] by (simp del: power_Suc add: mult_ac)
  have d: "DERIV (\<lambda>x. sin x ^ Suc n * cos x) x
      :> (real (Suc n) * sin x ^ n * cos x) * cos x + (- sin x) * sin x ^ Suc n"
    by (rule DERIV_mult[OF p DERIV_cos])
  have "DERIV (\<lambda>x. (- (sin x ^ Suc n * cos x) + real (n + 1) * sin_int n x) / real (n + 2)) x
     :> (- ((real (Suc n) * sin x ^ n * cos x) * cos x + (- sin x) * sin x ^ Suc n)
          + real (n + 1) * sin x ^ n) / real (n + 2)"
    by (intro DERIV_cdivide DERIV_add DERIV_cmult DERIV_minus d "3.IH")
  moreover have "(- ((real (Suc n) * sin x ^ n * cos x) * cos x + (- sin x) * sin x ^ Suc n)
          + real (n + 1) * sin x ^ n) / real (n + 2) = sin x ^ Suc (Suc n)"
  proof -
    have c: "cos x * cos x = 1 - sin x * sin x"
      using sin_cos_squared_add[of x] by (simp add: power2_eq_square algebra_simps)
    have "(- ((real (Suc n) * sin x ^ n * cos x) * cos x + (- sin x) * sin x ^ Suc n)
          + real (n + 1) * sin x ^ n)
        = - (real (Suc n) * sin x ^ n * (cos x * cos x)) + sin x ^ Suc n * sin x
          + real (n + 1) * sin x ^ n"
      by (simp add: algebra_simps)
    also have "\<dots> = real (n + 2) * sin x ^ Suc (Suc n)"
      unfolding c by (simp add: algebra_simps)
    finally show ?thesis by simp
  qed
  ultimately show ?case unfolding eq by simp
qed

lemma sin_int_0: "sin_int n 0 = 0"
  by (induction n "0::real" rule: sin_int.induct) simp_all

lemma wallis_0: "wallis 0 = pi / 2"
  by (simp add: wallis_def)

lemma wallis_1: "wallis (Suc 0) = 1"
  by (simp add: wallis_def)

lemma wallis_Suc_Suc: "wallis (Suc (Suc n)) = real (n + 1) / real (n + 2) * wallis n"
  by (simp add: wallis_def)

lemma wallis_pos: "0 < wallis n"
proof (induction n rule: less_induct)
  case (less n)
  show ?case
  proof (cases n)
    case 0
    then show ?thesis by (simp add: wallis_0)
  next
    case (Suc m)
    show ?thesis
    proof (cases m)
      case 0
      with Suc show ?thesis by (simp add: wallis_1)
    next
      case (Suc k)
      have "0 < wallis k" using less[of k] \<open>n = Suc m\<close> Suc by simp
      then show ?thesis
        unfolding \<open>n = Suc m\<close> Suc wallis_Suc_Suc by (intro mult_pos_pos divide_pos_pos) simp_all
    qed
  qed
qed

lemma wallis_antimono: "wallis (Suc n) \<le> wallis n"
proof -
  have "sin_int (Suc n) (pi / 2) - sin_int (Suc n) 0 \<le> sin_int n (pi / 2) - sin_int n 0"
  proof (rule antiderivative_mono[where f = "\<lambda>x. sin x ^ Suc n" and g = "\<lambda>x. sin x ^ n"])
    show "0 \<le> pi / 2" by simp
    show "DERIV (sin_int (Suc n)) x :> sin x ^ Suc n" for x by (rule DERIV_sin_int)
    show "DERIV (sin_int n) x :> sin x ^ n" for x by (rule DERIV_sin_int)
    show "sin x ^ Suc n \<le> sin x ^ n" if "0 \<le> x" "x \<le> pi / 2" for x
    proof -
      have "0 \<le> sin x" using that by (intro sin_ge_zero) (use pi_ge_two in linarith)+
      moreover have "sin x \<le> 1" by simp
      ultimately show ?thesis by (intro power_decreasing) simp_all
    qed
  qed
  then show ?thesis by (simp add: wallis_def sin_int_0)
qed

lemma wallis_prod: "wallis n * wallis (Suc n) = pi / (2 * real (n + 1))"
proof (induction n)
  case 0
  then show ?case by (simp add: wallis_0 wallis_1)
next
  case (Suc n)
  have "wallis (Suc n) * wallis (Suc (Suc n))
      = real (n + 1) / real (n + 2) * (wallis n * wallis (Suc n))"
    by (simp add: wallis_Suc_Suc)
  also have "\<dots> = real (n + 1) / real (n + 2) * (pi / (2 * real (n + 1)))"
    by (simp only: Suc.IH)
  also have "\<dots> = pi / (2 * real (Suc n + 1))"
  proof -
    define a b where "a = real (n + 1)" and "b = real (n + 2)"
    have "0 < a" "0 < b" by (simp_all add: a_def b_def)
    then have "a / b * (pi / (2 * a)) = pi / (2 * b)" by (simp add: field_simps)
    then show ?thesis by (simp add: a_def b_def)
  qed
  finally show ?case .
qed


lemma wallis_sq_upper: "(wallis (Suc n))\<^sup>2 \<le> pi / (2 * real (n + 1))"
proof -
  have "wallis (Suc n) * wallis (Suc n) \<le> wallis n * wallis (Suc n)"
    using wallis_antimono[of n] wallis_pos[of "Suc n"] by (intro mult_right_mono) simp_all
  then show ?thesis by (simp add: wallis_prod power2_eq_square)
qed



lemma rat_int_0: "rat_int n 0 = 0"
  by (induction n) simp_all

lemma rat_int_tendsto: "(rat_int n \<longlongrightarrow> wallis (2 * n)) at_top"
proof (induction n)
  case 0
  have "rat_int 0 = arctan" by (rule ext) simp
  then show ?case using tendsto_arctan_at_top by (simp add: wallis_0)
next
  case (Suc n)
  have small: "((\<lambda>x::real. x / (1 + x\<^sup>2) ^ Suc n) \<longlongrightarrow> 0) at_top"
  proof (rule tendsto_sandwich[where f = "\<lambda>x. 0" and h = "\<lambda>x::real. 1 / x"])
    show "\<forall>\<^sub>F x::real in at_top. 0 \<le> x / (1 + x\<^sup>2) ^ Suc n"
      using eventually_ge_at_top[of "0::real"]
      by eventually_elim (simp add: add_nonneg_nonneg)
    show "\<forall>\<^sub>F x::real in at_top. x / (1 + x\<^sup>2) ^ Suc n \<le> 1 / x"
      using eventually_gt_at_top[of "0::real"]
    proof eventually_elim
      case (elim x)
      have "x * x \<le> 1 + x\<^sup>2" by (simp add: power2_eq_square)
      also have "\<dots> \<le> (1 + x\<^sup>2) ^ Suc n"
        using self_le_power[of "1 + x\<^sup>2" "Suc n"] by simp
      finally show ?case using elim by (simp add: field_simps add_pos_nonneg)
    qed
    show "((\<lambda>x::real. 0) \<longlongrightarrow> (0::real)) at_top" by simp
    show "((\<lambda>x::real. 1 / x) \<longlongrightarrow> 0) at_top"
      using tendsto_inverse_0_at_top[OF filterlim_ident]
      by (simp add: inverse_eq_divide)
  qed
  have "((\<lambda>x. (x / (1 + x\<^sup>2) ^ Suc n + real (2 * n + 1) * rat_int n x) / real (2 * n + 2))
          \<longlongrightarrow> (0 + real (2 * n + 1) * wallis (2 * n)) / real (2 * n + 2)) at_top"
    by (intro tendsto_divide tendsto_add tendsto_mult tendsto_const small Suc.IH) simp
  moreover have "(0 + real (2 * n + 1) * wallis (2 * n)) / real (2 * n + 2) = wallis (2 * Suc n)"
    using wallis_Suc_Suc[of "2 * n"] by simp
  moreover have "rat_int (Suc n)
      = (\<lambda>x. (x / (1 + x\<^sup>2) ^ Suc n + real (2 * n + 1) * rat_int n x) / real (2 * n + 2))"
    by (rule ext) simp
  ultimately show ?case by simp
qed

lemma rat_int_le: "rat_int n x \<le> wallis (2 * n)"
proof (rule tendsto_lowerbound[OF rat_int_tendsto])
  show "\<forall>\<^sub>F y in at_top. rat_int n x \<le> rat_int n y"
    using eventually_ge_at_top[of x]
  proof eventually_elim
    case (elim y)
    show ?case
    proof (rule DERIV_nonneg_imp_nondecreasing[OF elim])
      fix z
      have "DERIV (rat_int n) z :> 1 / (1 + z\<^sup>2) ^ Suc n" by (rule DERIV_rat_int)
      moreover have "0 \<le> 1 / (1 + z\<^sup>2) ^ Suc n"
        by (simp add: add_nonneg_nonneg)
      ultimately show "\<exists>d. DERIV (rat_int n) z :> d \<and> 0 \<le> d" by blast
    qed
  qed
  show "at_top \<noteq> (bot :: real filter)" by simp
qed

lemma DERIV_erf_series_scaled:
  assumes "0 < c"
  shows "DERIV (\<lambda>x. erf_series (c * x) / c) x :> exp (- ((c * x)\<^sup>2))"
proof -
  have 1: "DERIV (\<lambda>x. c * x) x :> c * 1" by (rule DERIV_cmult[OF DERIV_ident])
  have 2: "DERIV (\<lambda>x. erf_series (c * x)) x :> exp (- ((c * x)\<^sup>2)) * (c * 1)"
    by (rule DERIV_chain'[OF 1 DERIV_erf_series])
  have "DERIV (\<lambda>x. erf_series (c * x) / c) x :> exp (- ((c * x)\<^sup>2)) * (c * 1) / c"
    by (rule DERIV_cdivide[OF 2])
  then show ?thesis using assms by simp
qed

lemma erf_series_mono: "x \<le> y \<Longrightarrow> erf_series x \<le> erf_series y"
  by (rule DERIV_nonneg_imp_nondecreasing[of x y erf_series])
     (auto intro!: exI[of _ "exp (- (_\<^sup>2))"] DERIV_erf_series)

lemma erf_series_nonneg: "0 \<le> y \<Longrightarrow> 0 \<le> erf_series y"
  using erf_series_mono[of 0 y] by (simp add: erf_series_0)


lemma erf_series_upper:
  assumes "0 \<le> y"
  shows "erf_series y \<le> sqrt (real (Suc n)) * wallis (2 * n)"
proof -
  define c where "c = sqrt (real (Suc n))"
  have c: "0 < c" "c\<^sup>2 = real (Suc n)" by (simp_all add: c_def)
  define x where "x = y / c"
  have x: "0 \<le> x" "c * x = y" using assms c(1) by (simp_all add: x_def)
  have "erf_series (c * x) / c - erf_series (c * 0) / c \<le> rat_int n x - rat_int n 0"
  proof (rule antiderivative_mono[where f = "\<lambda>x. exp (- ((c * x)\<^sup>2))"
          and g = "\<lambda>x. 1 / (1 + x\<^sup>2) ^ Suc n"])
    show "0 \<le> x" by (rule x(1))
    show "DERIV (rat_int n) t :> 1 / (1 + t\<^sup>2) ^ Suc n" for t by (rule DERIV_rat_int)
    show "DERIV (\<lambda>x. erf_series (c * x) / c) t :> exp (- ((c * t)\<^sup>2))" for t
      by (rule DERIV_erf_series_scaled[OF c(1)])
    show "exp (- ((c * t)\<^sup>2)) \<le> 1 / (1 + t\<^sup>2) ^ Suc n" for t
    proof -
      have nn: "0 \<le> 1 + t\<^sup>2" by simp
      have "1 + t\<^sup>2 \<le> exp (t\<^sup>2)" by (rule exp_ge_add_one_self)
      then have "(1 + t\<^sup>2) ^ Suc n \<le> exp (t\<^sup>2) ^ Suc n" using nn by (rule power_mono)
      also have "\<dots> = exp (real (Suc n) * t\<^sup>2)" by (rule exp_of_nat_mult[symmetric])
      also have "real (Suc n) * t\<^sup>2 = (c * t)\<^sup>2"
        by (simp only: power_mult_distrib c(2))
      finally have le: "(1 + t\<^sup>2) ^ Suc n \<le> exp ((c * t)\<^sup>2)" .
      have pos: "0 < (1 + t\<^sup>2) ^ Suc n" by (intro zero_less_power) (simp add: add_pos_nonneg)
      have "exp (- ((c * t)\<^sup>2)) = 1 / exp ((c * t)\<^sup>2)" by (simp add: exp_minus field_simps)
      also have "\<dots> \<le> 1 / (1 + t\<^sup>2) ^ Suc n"
        using le pos by (intro divide_left_mono) simp_all
      finally show ?thesis .
    qed
  qed
  then have "erf_series y / c \<le> rat_int n x"
    by (simp add: x(2) erf_series_0 rat_int_0)
  also have "\<dots> \<le> wallis (2 * n)" by (rule rat_int_le)
  finally show ?thesis using c(1) unfolding c_def[symmetric] by (simp add: field_simps)
qed

lemma erf_series_le: 
  assumes "0 \<le> y"
  shows "erf_series y \<le> sqrt pi / 2"
proof -
  define r where "r = (erf_series y)\<^sup>2 * 4 / pi"
  have E0: "0 \<le> erf_series y" by (rule erf_series_nonneg[OF assms])
  have bound: "r \<le> 1 + 1 / real n" if npos: "0 < n" for n
  proof -
    from npos obtain k where k: "n = Suc k" by (cases n) auto
    have w: "(wallis (2 * n))\<^sup>2 \<le> pi / (2 * real (2 * n))"
      using wallis_sq_upper[of "2 * k + 1"] by (simp add: k)
    have "erf_series y \<le> sqrt (real (Suc n)) * wallis (2 * n)"
      by (rule erf_series_upper[OF assms])
    then have "(erf_series y)\<^sup>2 \<le> (sqrt (real (Suc n)) * wallis (2 * n))\<^sup>2"
      using E0 by (intro power_mono) simp_all
    also have "\<dots> = real (Suc n) * (wallis (2 * n))\<^sup>2"
      by (simp add: power_mult_distrib)
    also have "\<dots> \<le> real (Suc n) * (pi / (2 * real (2 * n)))"
      using w by (intro mult_left_mono) simp_all
    finally have "(erf_series y)\<^sup>2 \<le> real (Suc n) * (pi / (2 * real (2 * n)))" .
    then have "r \<le> real (Suc n) * (pi / (2 * real (2 * n))) * 4 / pi"
      unfolding r_def by (intro divide_right_mono mult_right_mono) simp_all
    also have "\<dots> = 1 + 1 / real n" using npos by (simp add: field_simps)
    finally show ?thesis .
  qed
  have "r \<le> 1"
  proof (rule ccontr)
    assume "\<not> r \<le> 1"
    then have "0 < r - 1" by simp
    from ex_inverse_of_nat_less[OF this] obtain n where n: "0 < n" "inverse (real n) < r - 1"
      by blast
    with bound[OF n(1)] show False by (simp add: inverse_eq_divide)
  qed
  then have "(erf_series y)\<^sup>2 \<le> pi / 4" by (simp add: r_def field_simps)
  also have "\<dots> = (sqrt pi / 2)\<^sup>2" by (simp add: power_divide)
  finally show ?thesis by (rule power2_le_imp_le) simp
qed


subsection \<open>Bounds and tails of the normal distribution function\<close>

lemma erf_le_1: "0 \<le> y \<Longrightarrow> erf y \<le> 1"
proof -
  assume "0 \<le> y"
  from erf_series_le[OF this] have "2 / sqrt pi * erf_series y \<le> 2 / sqrt pi * (sqrt pi / 2)"
    by (intro mult_left_mono) simp_all
  then show ?thesis by (simp add: erf_def)
qed


lemma norm_cdf_le_1: "norm_cdf x \<le> 1"
proof (cases "0 \<le> x")
  case True
  then have "erf (x / sqrt 2) \<le> 1" by (intro erf_le_1) simp
  then show ?thesis by (simp add: norm_cdf_def)
next
  case False
  then have "norm_cdf x < norm_cdf 0" by (intro norm_cdf_strict_mono) simp
  then show ?thesis by (simp add: norm_cdf_0)
qed


lemma norm_cdf_lt_1: "norm_cdf x < 1"
  using norm_cdf_strict_mono[of x "x + 1"] norm_cdf_le_1[of "x + 1"] by simp

lemma norm_cdf_gt_0: "0 < norm_cdf x"
  using norm_cdf_lt_1[of "- x"] by (simp add: norm_cdf_minus)






subsection \<open>The pricing kernel\<close>





















subsection \<open>The solver and the chain processor\<close>






lemma simple_newton_loop_eq:
  "simple_newton_loop black_scholes_price bsm_vega mp S K r q tau ot tol n sigma
     = snd (newton_loop mp S K r q tau ot tol n i sigma)"
proof (induction n arbitrary: i sigma)
  case 0
  show ?case by simp
next
  case (Suc n)
  show ?case
    by (simp add: Let_def Suc.IH[of _ "Suc i"] split: prod.splits)
qed

lemma simple_bisection_loop_eq:
  "simple_bisection_loop black_scholes_price mp S K r q tau ot tol n low high
     = snd (bisection_loop mp S K r q tau ot tol n i low high)"
proof (induction n arbitrary: i low high)
  case 0
  show ?case by (simp add: Let_def)
next
  case (Suc n)
  show ?case
    by (simp add: Let_def Suc.IH[of _ _ "Suc i"] split: prod.splits)
qed

text \<open>
  Claim C10. For identical arguments, \<^verbatim>\<open>implied_vol_newton\<close> and \<^verbatim>\<open>implied_vol_bisection\<close> of
  the older module return exactly the value (or \<^verbatim>\<open>None\<close>) that the functions of the same
  names in the tracing module return; the two differ in console output only. The older
  module's pricing functions are instantiated with the repository's kernel.
\<close>

theorem solvers_agree:
  "simple_implied_vol_newton black_scholes_price bsm_vega mp S K r q tau ot initial_vol tol max_iter
     = snd (implied_vol_newton mp S K r q tau ot initial_vol tol max_iter)
   \<and> simple_implied_vol_bisection black_scholes_price mp S K r q tau ot low high tol max_iter'
     = snd (implied_vol_bisection mp S K r q tau ot low high tol max_iter')"
  unfolding simple_implied_vol_newton_def simple_implied_vol_bisection_def
    implied_vol_newton_def implied_vol_bisection_def
  by (simp add: simple_newton_loop_eq[of _ _ _ _ _ _ _ _ _ _ 0]
      simple_bisection_loop_eq[of _ _ _ _ _ _ _ _ _ _ _ 0] split: prod.splits)

text \<open>
  Claim C7. At or after expiry (\<open>tau \<le> 0\<close>) the price is the intrinsic value, \<open>max (S - K) 0\<close>
  for a call and \<open>max (K - S) 0\<close> for a put, whatever the volatility and the other inputs.
\<close>

theorem expiry_intrinsic:
  "tau \<le> 0 \<Longrightarrow>
     black_scholes_price S K r q sigma tau ''C'' = max (S - K) 0
     \<and> black_scholes_price S K r q sigma tau ''P'' = max (K - S) 0"
  by (simp add: black_scholes_price_def)

text \<open>
  The scenario \<open>tau = 0\<close>, \<open>S = 105\<close>, \<open>K = 100\<close>: the call is worth \<open>5\<close>, the put \<open>0\<close>.
\<close>

theorem expiry_intrinsic_witness:
  "(0::real) \<le> 0 \<and> black_scholes_price 105 100 (5/100) 0 (1/5) 0 ''C'' = 5
     \<and> black_scholes_price 105 100 (5/100) 0 (1/5) 0 ''P'' = 0"
  using expiry_intrinsic[of 0 105 100 "5/100" 0 "1/5"] by simp

lemma process_chain_rows:
  "process_chain self rows spot tau = (out, Inr pts) \<Longrightarrow>
     length pts = length rows
     \<and> (\<forall>i<length rows. \<exists>out'. process_row self (rows ! i) spot tau = (out', Inr (pts ! i)))"
proof (induction rows arbitrary: out pts)
  case Nil
  then show ?case by simp
next
  case (Cons row rows)
  then obtain o1 p o2 ps where
    1: "process_row self row spot tau = (o1, Inr p)" and
    2: "process_chain self rows spot tau = (o2, Inr ps)" and
    3: "pts = p # ps"
    by (auto split: prod.splits sum.splits)
  from Cons.IH[OF 2] 1 3 show ?case
    by (auto simp: nth_Cons split: nat.splits)
qed

lemma process_row_point:
  assumes "process_row self row spot tau = (out, Inr p)"
  shows "row ''bid'' = Some (bid p) \<and> row ''ask'' = Some (ask p)
       \<and> row ''symbol'' = Some (symbol p) \<and> row ''expiry'' = Some (expiry p)
       \<and> row ''strike'' = Some (strike p) \<and> row ''type'' = Some (otype p)
       \<and> mid_price (bid p) (ask p) = Inr (mid p)
       \<and> (case mid p of None \<Rightarrow> ([], None)
           | Some x \<Rightarrow> if x \<noteq> 0 \<and> x > 0
                then solve_quote x spot row (risk_free_rate self) (dividend_yield self) tau
                else ([], None)) = (out, implied_vol p)
       \<and> greeks (implied_vol p) spot row (risk_free_rate self) (dividend_yield self) tau
           = Inr (delta p, gamma p, theta p, rho p)"
  using assms unfolding process_row_def lookup_def
  by (auto split: option.splits sum.splits prod.splits)






lemma process_row_absent:
  assumes "process_row self row spot tau = (out, Inr p)"
    and "mid p = None \<or> (\<exists>m. mid p = Some m \<and> m \<le> 0)"
  shows "out = [] \<and> implied_vol p = None \<and> delta p = None \<and> gamma p = None
         \<and> theta p = None \<and> rho p = None"
  using process_row_point[OF assms(1)] assms(2)
  by (auto simp: greeks_def split: option.splits if_splits)



lemma lookup_last: "k \<noteq> ''last'' \<Longrightarrow> lookup (row(''last'' := x)) k = lookup row k"
  by (simp add: lookup_def)

lemma solve_quote_last: "solve_quote m spot (row(''last'' := x)) r q tau = solve_quote m spot row r q tau"
  by (simp add: solve_quote_def cong: option.case_cong)

lemma greeks_last: "greeks iv spot (row(''last'' := x)) r q tau = greeks iv spot row r q tau"
  by (simp add: greeks_def lookup_last cong: option.case_cong sum.case_cong if_cong)

lemma process_row_last:
  "process_row self (row(''last'' := x)) spot tau = process_row self row spot tau"
  by (simp add: process_row_def lookup_last solve_quote_last greeks_last
      cong: option.case_cong sum.case_cong prod.case_cong if_cong)





text \<open>
  Claim C5 as stated fails: the presence test \<^verbatim>\<open>if (bid and ask)\<close> is Python truthiness, so a
  quote whose bid is \<open>0.0\<close> and whose ask is \<open>1.0\<close> (both present) gets no mid, not \<open>0.5\<close>.
\<close>

theorem zero_bid_gives_no_mid:
  "process_chain \<lparr>risk_free_rate = 5 / 100, dividend_yield = 0\<rparr>
     [[''symbol'' \<mapsto> PStr ''AAPL'', ''expiry'' \<mapsto> PStr ''2025-01-17'',
       ''strike'' \<mapsto> PFloat 150, ''type'' \<mapsto> PStr ''C'', ''bid'' \<mapsto> PFloat 0,
       ''ask'' \<mapsto> PFloat 1]]
     150 1
   = ([], Inr [\<lparr>symbol = PStr ''AAPL'', expiry = PStr ''2025-01-17'', strike = PFloat 150,
                 otype = PStr ''C'', bid = PFloat 0, ask = PFloat 1, mid = None,
                 implied_vol = None, delta = None, gamma = None, theta = None, rho = None\<rparr>])"
  by (simp add: process_row_def lookup_def mid_price_def greeks_def)

lemma mid_price_cases:
  assumes "mid_price b a = Inr m"
  shows "(\<forall>x y. b = PFloat x \<and> a = PFloat y \<and> x \<noteq> 0 \<and> y \<noteq> 0 \<longrightarrow> m = Some ((x + y) / 2))
       \<and> (b \<in> {PNone, PFloat 0} \<or> a \<in> {PNone, PFloat 0} \<longrightarrow> m = None)"
  using assms by (cases b; cases a) (auto simp: mid_price_def split: if_splits)

text \<open>
  Claim C5, amended. For every quote of a batch that \<^verbatim>\<open>process_chain\<close> processes, the point
  echoes the quote's bid and ask; its mid is \<open>(bid + ask) / 2\<close> whenever both sides are
  non-zero numbers, and is absent when either side is \<^verbatim>\<open>None\<close> or zero; the quote's \<^verbatim>\<open>last\<close>
  field is never read (there is no fallback to the last-trade price); and when the mid is
  absent or \<open>\<le> 0\<close> the solver is not run (the quote produces no solver output) and the
  point has the implied volatility and all four Greeks absent.
\<close>

theorem mid_price_rule:
  assumes "process_chain self raw_chain spot tau = (out, Inr pts)" and "i < length raw_chain"
  shows "(raw_chain ! i) ''bid'' = Some (bid (pts ! i))
       \<and> (raw_chain ! i) ''ask'' = Some (ask (pts ! i))
       \<and> (\<forall>x y. bid (pts ! i) = PFloat x \<and> ask (pts ! i) = PFloat y \<and> x \<noteq> 0 \<and> y \<noteq> 0
              \<longrightarrow> mid (pts ! i) = Some ((x + y) / 2))
       \<and> (bid (pts ! i) \<in> {PNone, PFloat 0} \<or> ask (pts ! i) \<in> {PNone, PFloat 0}
              \<longrightarrow> mid (pts ! i) = None)
       \<and> (\<forall>v. process_row self ((raw_chain ! i)(''last'' := v)) spot tau
                = process_row self (raw_chain ! i) spot tau)
       \<and> (mid (pts ! i) = None \<or> (\<exists>m. mid (pts ! i) = Some m \<and> m \<le> 0)
              \<longrightarrow> fst (process_row self (raw_chain ! i) spot tau) = []
                \<and> implied_vol (pts ! i) = None \<and> delta (pts ! i) = None
                \<and> gamma (pts ! i) = None \<and> theta (pts ! i) = None \<and> rho (pts ! i) = None)"
proof -
  from process_chain_rows[OF assms(1)] assms(2) obtain out' where
    pr: "process_row self (raw_chain ! i) spot tau = (out', Inr (pts ! i))" by blast
  note pt = process_row_point[OF pr]
  from pt have mp: "mid_price (bid (pts ! i)) (ask (pts ! i)) = Inr (mid (pts ! i))" by blast
  show ?thesis
    using pt mid_price_cases[OF mp] process_row_absent[OF pr] process_row_last pr
    by (simp del: fun_upd_apply)
qed

text \<open>
  A quote with bid \<open>3\<close> and ask \<open>4\<close>, processed at \<open>tau = 0\<close>: the mid is \<open>7/2\<close>.
\<close>

theorem mid_price_rule_witness:
  "process_chain \<lparr>risk_free_rate = 5 / 100, dividend_yield = 0\<rparr>
     [[''symbol'' \<mapsto> PStr ''AAPL'', ''expiry'' \<mapsto> PStr ''2025-01-17'',
       ''strike'' \<mapsto> PFloat 150, ''type'' \<mapsto> PStr ''C'', ''bid'' \<mapsto> PFloat 3,
       ''ask'' \<mapsto> PFloat 4]]
     150 0
   = ([], Inr [\<lparr>symbol = PStr ''AAPL'', expiry = PStr ''2025-01-17'', strike = PFloat 150,
                 otype = PStr ''C'', bid = PFloat 3, ask = PFloat 4, mid = Some (7 / 2),
                 implied_vol = None, delta = None, gamma = None, theta = None, rho = None\<rparr>])
   \<and> (0::nat) < length [[''symbol'' \<mapsto> PStr ''AAPL'', ''expiry'' \<mapsto> PStr ''2025-01-17'',
       ''strike'' \<mapsto> PFloat 150, ''type'' \<mapsto> PStr ''C'', ''bid'' \<mapsto> PFloat 3,
       ''ask'' \<mapsto> PFloat (4::real)]]
   \<and> mid \<lparr>symbol = PStr ''AAPL'', expiry = PStr ''2025-01-17'', strike = PFloat 150,
                 otype = PStr ''C'', bid = PFloat 3, ask = PFloat 4, mid = Some (7 / 2),
                 implied_vol = None, delta = None, gamma = None, theta = None, rho = None\<rparr>
       = Some ((3 + 4) / 2)"
proof -
  let ?q = "[''symbol'' \<mapsto> PStr ''AAPL'', ''expiry'' \<mapsto> PStr ''2025-01-17'',
       ''strike'' \<mapsto> PFloat 150, ''type'' \<mapsto> PStr ''C'', ''bid'' \<mapsto> PFloat 3,
       ''ask'' \<mapsto> PFloat 4]"
  let ?p = "\<lparr>symbol = PStr ''AAPL'', expiry = PStr ''2025-01-17'', strike = PFloat 150,
                 otype = PStr ''C'', bid = PFloat 3, ask = PFloat 4, mid = Some (7 / 2),
                 implied_vol = None, delta = None, gamma = None, theta = None, rho = None\<rparr>"
  have pc: "process_chain \<lparr>risk_free_rate = 5 / 100, dividend_yield = 0\<rparr> [?q] 150 0
      = ([], Inr [?p])"
    by (simp add: process_row_def lookup_def mid_price_def greeks_def solve_quote_def
        implied_volatility_default_def implied_volatility_def)
  have i: "(0::nat) < length [?q]" by simp
  from mid_price_rule[OF pc i] have "mid ([?p] ! 0) = Some ((3 + 4) / 2)"
    by simp
  with pc i show ?thesis by simp
qed



subsection \<open>The solver on prices outside the no-arbitrage bounds\<close>








subsection \<open>The round trip through the solver\<close>


















end
